theory Spec2Isabelle
  imports Main "HOL-Library.Word"
begin

section \<open>The platform: bytes, exceptions and the raw stream socket\<close>

type_synonym byte = "8 word"
type_synonym bytes = "byte list"

text \<open>
  The exceptions that reach the \<open>except\<close> clauses of the module. \<open>StructError\<close> is
  \<open>struct.error\<close>, \<open>SocketError\<close> is \<open>socket.error\<close>, \<open>ValueError\<close> and
  \<open>UnicodeError\<close> are caught by \<open>except Exception\<close> only, and \<open>Misuse\<close> is the bare
  \<open>Exception\<close> that \<open>ServerBase.start\<close> raises itself.
\<close>

datatype error = StructError | SocketError | ValueError | UnicodeError | Misuse string

datatype phase = Fresh | Established | Listening | Closed

text \<open>
  What the operating system does at one call of a socket primitive: the call raises, or it
  goes through and moves at most the given number of bytes. For the readiness wait,
  \<open>Moves 0\<close> is the wait running out and any other \<open>Moves\<close> is the socket being readable.
\<close>

datatype event = Raises | Moves nat

text \<open>
  The socket object behind a handle. \<open>inbox\<close> holds the bytes that the peer has put on the
  stream towards this end and that have not been received yet, after which the peer has
  closed; \<open>outbox\<close> collects the bytes that \<open>send\<close> has handed to the transport. \<open>plan\<close> is
  the behaviour of the platform, one event for each call of a primitive, and \<open>clock\<close> counts
  the calls made so far.
\<close>

record rawsock =
  fd :: nat
  phase :: phase
  sock_timeout :: "int option"
  inbox :: bytes
  outbox :: bytes
  plan :: "nat \<Rightarrow> event"
  clock :: nat

definition tick :: "rawsock \<Rightarrow> rawsock" where
  "tick r = r\<lparr>clock := Suc (clock r)\<rparr>"

text \<open>\<open>select([sock], [], [], timeout)\<close>: is the socket readable within the timeout?\<close>

definition select_readable :: "rawsock \<Rightarrow> int \<Rightarrow> rawsock \<times> (error + bool)" where
  "select_readable r t =
     (if t < 0 then (r, Inl ValueError)
      else (case plan r (clock r) of
              Raises \<Rightarrow> (tick r, Inl SocketError)
            | Moves k \<Rightarrow> (tick r, Inr (0 < k))))"

text \<open>
  \<open>sock.recv(n)\<close> returns at most \<open>n\<close> bytes, fewer when the transport delivers fewer, and
  the empty byte string once the stream is at its end.
\<close>

definition recv :: "rawsock \<Rightarrow> nat \<Rightarrow> rawsock \<times> (error + bytes)" where
  "recv r n =
     (case plan r (clock r) of
        Raises \<Rightarrow> (tick r, Inl SocketError)
      | Moves k \<Rightarrow>
          (let m = min n (min k (length (inbox r)))
           in (tick r\<lparr>inbox := drop m (inbox r)\<rparr>, Inr (take m (inbox r)))))"

text \<open>\<open>sock.send(buf)\<close> transmits a prefix of \<open>buf\<close> and returns its length.\<close>

definition send :: "rawsock \<Rightarrow> bytes \<Rightarrow> rawsock \<times> (error + nat)" where
  "send r buf =
     (case plan r (clock r) of
        Raises \<Rightarrow> (tick r, Inl SocketError)
      | Moves k \<Rightarrow>
          (let m = min k (length buf)
           in (tick r\<lparr>outbox := outbox r @ take m buf\<rparr>, Inr m)))"

definition shutdown :: "rawsock \<Rightarrow> rawsock \<times> (error + unit)" where
  "shutdown r =
     (case plan r (clock r) of
        Raises \<Rightarrow> (tick r, Inl SocketError)
      | Moves k \<Rightarrow> (tick r, Inr ()))"

text \<open>\<open>sock.close()\<close> releases the descriptor also when it reports an error.\<close>

definition close :: "rawsock \<Rightarrow> rawsock \<times> (error + unit)" where
  "close r =
     (case plan r (clock r) of
        Raises \<Rightarrow> (tick r\<lparr>phase := Closed\<rparr>, Inl SocketError)
      | Moves k \<Rightarrow> (tick r\<lparr>phase := Closed\<rparr>, Inr ()))"

definition settimeout :: "rawsock \<Rightarrow> int \<Rightarrow> error + rawsock" where
  "settimeout r t = (if t < 0 then Inl ValueError else Inr (r\<lparr>sock_timeout := Some t\<rparr>))"

text \<open>
  The services outside a socket object: \<open>socket()\<close> yields a new object or raises
  (\<open>None\<close>), and the network decides which addresses accept a connection and which can be
  bound.
\<close>

record platform =
  new_socket :: "rawsock option"
  reachable :: "string \<Rightarrow> int \<Rightarrow> bool"
  bindable :: "string \<Rightarrow> int \<Rightarrow> bool"

definition connect_raw :: "platform \<Rightarrow> rawsock \<Rightarrow> string \<Rightarrow> int \<Rightarrow> error + rawsock" where
  "connect_raw pf r host port =
     (if reachable pf host port then Inr (r\<lparr>phase := Established\<rparr>) else Inl SocketError)"

subsection \<open>\<open>struct.pack(">I", n)\<close> and \<open>struct.unpack(">I", b)\<close>\<close>

definition pack_u32 :: "nat \<Rightarrow> bytes option" where
  "pack_u32 n =
     (if n \<le> 4294967295
      then Some [of_nat (n div 16777216), of_nat (n div 65536), of_nat (n div 256), of_nat n]
      else None)"

definition unpack_u32 :: "bytes \<Rightarrow> nat option" where
  "unpack_u32 b =
     (case b of
        [b3, b2, b1, b0] \<Rightarrow>
          Some (unat b3 * 16777216 + unat b2 * 65536 + unat b1 * 256 + unat b0)
      | _ \<Rightarrow> None)"

subsection \<open>\<open>str.encode()\<close>\<close>

text \<open>A Python string is a list of code points; the default encoding is strict UTF-8.\<close>

definition encode_cp :: "nat \<Rightarrow> bytes option" where
  "encode_cp c =
     (if c < 128 then Some [of_nat c]
      else if c < 2048 then Some [of_nat (192 + c div 64), of_nat (128 + c mod 64)]
      else if 55296 \<le> c \<and> c \<le> 57343 then None
      else if c < 65536 then
        Some [of_nat (224 + c div 4096), of_nat (128 + c div 64 mod 64), of_nat (128 + c mod 64)]
      else if c < 1114112 then
        Some [of_nat (240 + c div 262144), of_nat (128 + c div 4096 mod 64),
              of_nat (128 + c div 64 mod 64), of_nat (128 + c mod 64)]
      else None)"

fun encode :: "nat list \<Rightarrow> bytes option" where
  "encode [] = Some []"
| "encode (c # cs) =
     (case encode_cp c of
        None \<Rightarrow> None
      | Some b \<Rightarrow> (case encode cs of None \<Rightarrow> None | Some bs \<Rightarrow> Some (b @ bs)))"

section \<open>\<open>gruv_socks.Socket\<close>\<close>

definition SOCK_ERROR :: bytes where
  "SOCK_ERROR = [1]"

definition SOCK_TIMEOUT :: bytes where
  "SOCK_TIMEOUT = [0]"

record Socket =
  timeout :: int
  debug :: bool
  sock :: "rawsock option"

text \<open>\<open>Socket.__init__(sock, timeout, debug)\<close>\<close>

definition Socket_init :: "rawsock option \<Rightarrow> int \<Rightarrow> bool \<Rightarrow> Socket" where
  "Socket_init sk t d = \<lparr>timeout = t, debug = d, sock = sk\<rparr>"

text \<open>The argument of \<open>write\<close>: \<open>bytes or str\<close>.\<close>

datatype payload = Bytes bytes | Str "nat list"

subsection \<open>\<open>Socket.connect\<close>\<close>

definition connect :: "platform \<Rightarrow> Socket \<Rightarrow> string \<Rightarrow> int \<Rightarrow> Socket \<times> bool" where
  "connect pf s host port =
     (if sock s \<noteq> None then (s, False)
      else (case new_socket pf of
              None \<Rightarrow> (s, False)
            | Some r0 \<Rightarrow>
                (case settimeout r0 (timeout s) of
                   Inl e \<Rightarrow> (s\<lparr>sock := Some r0\<rparr>, False)
                 | Inr r1 \<Rightarrow>
                     (case connect_raw pf r1 host port of
                        Inl e \<Rightarrow> (s\<lparr>sock := Some r1\<rparr>, False)
                      | Inr r2 \<Rightarrow> (s\<lparr>sock := Some r2\<rparr>, True)))))"

subsection \<open>\<open>Socket.read\<close>\<close>

text \<open>
  The \<open>while data_length < message_length\<close> loop. Nothing bounds the number of its
  rounds, so it is a partial function: \<open>None\<close> is the loop that never ends.
\<close>

partial_function (option) read_loop ::
  "rawsock \<Rightarrow> nat \<Rightarrow> nat \<Rightarrow> bytes list \<Rightarrow> (rawsock \<times> (error + bytes list)) option" where
  "read_loop r message_length data_length fragments =
     (if data_length < message_length then
        (case recv r (message_length - data_length) of
           (r', Inl e) \<Rightarrow> Some (r', Inl e)
         | (r', Inr buffer) \<Rightarrow>
             read_loop r' message_length (data_length + length buffer) (fragments @ [buffer]))
      else Some (r, Inr fragments))"

declare read_loop.simps [code]

definition read :: "Socket \<Rightarrow> int \<Rightarrow> (Socket \<times> bool \<times> bytes) option" where
  "read s timeout_override =
     (let tmo = (if timeout_override \<noteq> 0 then timeout_override else timeout s) in
      case sock s of
        None \<Rightarrow> Some (s, False, SOCK_TIMEOUT)
      | Some r \<Rightarrow>
          (case select_readable r tmo of
             (r1, Inl e) \<Rightarrow> Some (s\<lparr>sock := Some r1\<rparr>, False, SOCK_ERROR)
           | (r1, Inr False) \<Rightarrow> Some (s\<lparr>sock := Some r1\<rparr>, False, [0])
           | (r1, Inr True) \<Rightarrow>
               (case recv r1 4 of
                  (r2, Inl e) \<Rightarrow> Some (s\<lparr>sock := Some r2\<rparr>, False, SOCK_ERROR)
                | (r2, Inr header) \<Rightarrow>
                    (case unpack_u32 header of
                       None \<Rightarrow> Some (s\<lparr>sock := Some r2\<rparr>, False, SOCK_ERROR)
                     | Some message_length \<Rightarrow>
                         (case read_loop r2 message_length 0 [] of
                            None \<Rightarrow> None
                          | Some (r3, Inl e) \<Rightarrow> Some (s\<lparr>sock := Some r3\<rparr>, False, SOCK_ERROR)
                          | Some (r3, Inr fragments) \<Rightarrow>
                              Some (s\<lparr>sock := Some r3\<rparr>, True, concat fragments))))))"

subsection \<open>\<open>Socket.write\<close> and \<open>Socket.__add__\<close>\<close>

text \<open>
  The \<open>while sent < length\<close> loop: \<open>data\<close> is the buffer with the prefix in front and
  \<open>len\<close> is the source's \<open>length\<close>, computed before the prefix was put there.
\<close>

partial_function (option) write_loop ::
  "rawsock \<Rightarrow> bytes \<Rightarrow> nat \<Rightarrow> nat \<Rightarrow> (rawsock \<times> (error + unit)) option" where
  "write_loop r data len sent =
     (if sent < len then
        (case send r (drop sent data) of
           (r', Inl e) \<Rightarrow> Some (r', Inl e)
         | (r', Inr n) \<Rightarrow> write_loop r' data len (sent + n))
      else Some (r, Inr ()))"

declare write_loop.simps [code]

text \<open>
  \<open>write_data\<close> is \<open>Socket.write\<close>. Its \<open>data.encode()\<close> stands before the \<open>try\<close>,
  so the exception of the encoder leaves the method: the result is \<open>Inl\<close> the exception,
  or \<open>Inr\<close> the boolean that the method returns.
\<close>

definition to_bytes :: "payload \<Rightarrow> error + bytes" where
  "to_bytes data =
     (case data of
        Bytes b \<Rightarrow> Inr b
      | Str cs \<Rightarrow> (case encode cs of None \<Rightarrow> Inl UnicodeError | Some b \<Rightarrow> Inr b))"

definition write_data :: "Socket \<Rightarrow> payload \<Rightarrow> (Socket \<times> (error + bool)) option" where
  "write_data s data =
     (case sock s of
        None \<Rightarrow> Some (s, Inr False)
      | Some r \<Rightarrow>
          (case to_bytes data of
             Inl e \<Rightarrow> Some (s, Inl e)
           | Inr b \<Rightarrow>
               (let len = length b in
                case pack_u32 len of
                  None \<Rightarrow> Some (s, Inr False)
                | Some prefix \<Rightarrow>
                    (case write_loop r (prefix @ b) len 0 of
                       None \<Rightarrow> None
                     | Some (r', Inl e) \<Rightarrow> Some (s\<lparr>sock := Some r'\<rparr>, Inr False)
                     | Some (r', Inr u) \<Rightarrow> Some (s\<lparr>sock := Some r'\<rparr>, Inr True)))))"

definition add :: "Socket \<Rightarrow> payload \<Rightarrow> (Socket \<times> (error + bool)) option" where
  "add s x = write_data s x"

subsection \<open>\<open>Socket.disconnect\<close>\<close>

text \<open>
  Besides the object, \<open>disconnect\<close> yields the socket it let go, in the state its calls
  left it in, or \<open>None\<close> when it called no primitive at all.
\<close>

definition disconnect :: "Socket \<Rightarrow> Socket \<times> rawsock option" where
  "disconnect s =
     (case sock s of
        None \<Rightarrow> (s, None)
      | Some r \<Rightarrow>
          (let r1 = fst (shutdown r);
               r2 = fst (close r1)
           in (s\<lparr>sock := None\<rparr>, Some r2)))"

section \<open>\<open>gruv_socks.ServerBase\<close>\<close>

record ServerBase =
  srv_debug :: bool
  running :: bool
  listener :: "rawsock option"

text \<open>\<open>ServerBase.__init__(debug)\<close>\<close>

definition ServerBase_init :: "bool \<Rightarrow> ServerBase" where
  "ServerBase_init d = \<lparr>srv_debug = d, running = False, listener = None\<rparr>"

text \<open>
  How \<open>start\<close> hands over to the accept loop: it runs the loop itself, or it starts a
  daemon thread that does.
\<close>

datatype 'cb launch = Inline 'cb | Threaded 'cb

definition start ::
  "platform \<Rightarrow> ServerBase \<Rightarrow> 'cb \<Rightarrow> int \<Rightarrow> string \<Rightarrow> bool \<Rightarrow> ServerBase \<times> (error + 'cb launch)" where
  "start pf srv callback port address blocking =
     (if listener srv \<noteq> None then (srv, Inl (Misuse ''server is already listening''))
      else (case new_socket pf of
              None \<Rightarrow> (srv, Inl SocketError)
            | Some l \<Rightarrow>
                if \<not> bindable pf address port then (srv\<lparr>listener := Some l\<rparr>, Inl SocketError)
                else (srv\<lparr>listener := Some (l\<lparr>phase := Listening\<rparr>), running := True\<rparr>,
                      Inr (if blocking then Inline callback else Threaded callback))))"

section \<open>Connections to run the operations on\<close>

text \<open>
  The handle of a connection after an operation is the handle before it when it is the
  same descriptor in the same phase: the operation has not closed, replaced or cleared it.
\<close>

definition same_handle :: "rawsock option \<Rightarrow> rawsock option \<Rightarrow> bool" where
  "same_handle h h' \<longleftrightarrow>
     map_option fd h' = map_option fd h \<and> map_option phase h' = map_option phase h"

text \<open>
  An established connection with the given bytes on their way in and the given behaviour of
  the platform, and the \<open>Socket\<close> object that owns it.
\<close>

definition wire :: "bytes \<Rightarrow> (nat \<Rightarrow> event) \<Rightarrow> rawsock" where
  "wire inb pl = \<lparr>fd = 3, phase = Established, sock_timeout = Some 60, inbox = inb,
     outbox = [], plan = pl, clock = 0\<rparr>"

definition conn :: "rawsock \<Rightarrow> Socket" where
  "conn r = Socket_init (Some r) 60 False"

text \<open>
  Four behaviours of the platform: every call goes through and moves up to 64 KiB, every
  call raises, the third call raises while the others go through, and nothing ever arrives
  (every wait runs out).
\<close>

definition steady :: "nat \<Rightarrow> event" where
  "steady = (\<lambda>i. Moves 65536)"

definition broken :: "nat \<Rightarrow> event" where
  "broken = (\<lambda>i. Raises)"

definition late_failure :: "nat \<Rightarrow> event" where
  "late_failure = (\<lambda>i. if i = 2 then Raises else Moves 65536)"

definition idle :: "nat \<Rightarrow> event" where
  "idle = (\<lambda>i. Moves 0)"

text \<open>
  The two ends of one connection: what the writer has handed to the transport arrives in
  the inbox of the reader.
\<close>

definition arrives :: "Socket \<Rightarrow> Socket \<Rightarrow> Socket" where
  "arrives w rd =
     (case (sock w, sock rd) of
        (Some a, Some b) \<Rightarrow> rd\<lparr>sock := Some (b\<lparr>inbox := inbox b @ outbox a\<rparr>)\<rparr>
      | _ \<Rightarrow> rd)"

text \<open>
  What \<open>socket()\<close> returns, and a network on which every address accepts connections
  (\<open>network True\<close>) or none does (\<open>network False\<close>).
\<close>

definition unconnected :: rawsock where
  "unconnected = \<lparr>fd = 4, phase = Fresh, sock_timeout = None, inbox = [], outbox = [],
     plan = steady, clock = 0\<rparr>"

definition network :: "bool \<Rightarrow> platform" where
  "network up = \<lparr>new_socket = Some unconnected, reachable = (\<lambda>h p. up), bindable = (\<lambda>a p. True)\<rparr>"

section \<open>The primitives and the two loops\<close>

lemma tick_simps [simp]:
  "fd (tick r) = fd r" "phase (tick r) = phase r" "sock_timeout (tick r) = sock_timeout r"
  "inbox (tick r) = inbox r" "outbox (tick r) = outbox r" "plan (tick r) = plan r"
  "clock (tick r) = Suc (clock r)"
  by (simp_all add: tick_def)

lemma recv_frame:
  assumes "recv r n = (r', res)"
  shows "fd r' = fd r" and "phase r' = phase r" and "plan r' = plan r"
    and "outbox r' = outbox r" and "clock r' = Suc (clock r)"
  using assms by (auto simp: recv_def Let_def split: event.splits)

lemma recv_Inl:
  assumes "recv r n = (r', Inl e)"
  shows "plan r (clock r) = Raises"
  using assms by (auto simp: recv_def Let_def split: event.splits)

lemma recv_Inr:
  assumes "recv r n = (r', Inr b)"
  shows "plan r (clock r) \<noteq> Raises" and "length b \<le> n" and "inbox r = b @ inbox r'"
  using assms by (auto simp: recv_def Let_def split: event.splits)

lemma send_frame:
  assumes "send r buf = (r', res)"
  shows "fd r' = fd r" and "phase r' = phase r" and "plan r' = plan r"
    and "inbox r' = inbox r" and "clock r' = Suc (clock r)"
  using assms by (auto simp: send_def Let_def split: event.splits)

lemma select_frame:
  assumes "select_readable r t = (r', res)"
  shows "fd r' = fd r" and "phase r' = phase r" and "plan r' = plan r"
    and "inbox r' = inbox r" and "outbox r' = outbox r"
  using assms by (auto simp: select_readable_def split: event.splits if_splits)

lemma select_clock:
  assumes "select_readable r t = (r', res)"
  shows "clock r' \<le> Suc (clock r)"
    and "clock r < clock r' \<Longrightarrow> plan r (clock r) = Raises \<Longrightarrow> \<exists>e. res = Inl e"
    and "res = Inr False \<Longrightarrow> plan r (clock r) \<noteq> Raises"
    and "res = Inr True \<Longrightarrow> plan r (clock r) \<noteq> Raises \<and> clock r' = Suc (clock r)"
  using assms by (auto simp: select_readable_def split: event.splits if_splits)

text \<open>
  Induction over the rounds of a loop that has returned: the loop was over already, the
  call of the primitive raised, or the call went through and the rest of the loop returned.
\<close>

lemma read_loop_induct [consumes 1, case_names stop raise step]:
  assumes run: "read_loop r L n frs = Some y"
    and stop: "\<And>r L n frs. \<not> n < L \<Longrightarrow> P r L n frs (r, Inr frs)"
    and raise: "\<And>r L n frs r' e. n < L \<Longrightarrow> recv r (L - n) = (r', Inl e) \<Longrightarrow> P r L n frs (r', Inl e)"
    and step: "\<And>r L n frs r' b y. n < L \<Longrightarrow> recv r (L - n) = (r', Inr b) \<Longrightarrow>
                 read_loop r' L (n + length b) (frs @ [b]) = Some y \<Longrightarrow>
                 P r' L (n + length b) (frs @ [b]) y \<Longrightarrow> P r L n frs y"
  shows "P r L n frs y"
proof -
  have "read_loop r L n frs = Some y \<and> P r L n frs y"
  proof (rule read_loop.raw_induct
      [where P = "\<lambda>r L n frs y. read_loop r L n frs = Some y \<and> P r L n frs y", OF _ run],
      goal_cases)
    case (1 loop r L n frs y)
    show ?case
    proof (cases "n < L")
      case False
      with 1(2) have "y = (r, Inr frs)" by simp
      with False stop [OF False] show ?thesis by (simp add: read_loop.simps)
    next
      case True
      obtain r' res where rc: "recv r (L - n) = (r', res)" by (cases "recv r (L - n)")
      show ?thesis
      proof (cases res)
        case (Inl e)
        with 1(2) True rc have "y = (r', Inl e)" by simp
        with True rc Inl raise [of n L r r' e] show ?thesis
          by (simp add: read_loop.simps [of r])
      next
        case (Inr b)
        with 1(2) True rc have "loop r' L (n + length b) (frs @ [b]) = Some y" by simp
        from 1(1) [OF this]
        have *: "read_loop r' L (n + length b) (frs @ [b]) = Some y"
          and **: "P r' L (n + length b) (frs @ [b]) y" by simp_all
        from True rc Inr * have "read_loop r L n frs = Some y"
          by (simp add: read_loop.simps [of r])
        with step [OF True _ * **] rc Inr show ?thesis by simp
      qed
    qed
  qed
  then show ?thesis ..
qed

lemma write_loop_induct [consumes 1, case_names stop raise step]:
  assumes run: "write_loop r data len sent = Some y"
    and stop: "\<And>r data len sent. \<not> sent < len \<Longrightarrow> P r data len sent (r, Inr ())"
    and raise: "\<And>r data len sent r' e. sent < len \<Longrightarrow> send r (drop sent data) = (r', Inl e) \<Longrightarrow>
                 P r data len sent (r', Inl e)"
    and step: "\<And>r data len sent r' k y. sent < len \<Longrightarrow> send r (drop sent data) = (r', Inr k) \<Longrightarrow>
                 write_loop r' data len (sent + k) = Some y \<Longrightarrow>
                 P r' data len (sent + k) y \<Longrightarrow> P r data len sent y"
  shows "P r data len sent y"
proof -
  have "write_loop r data len sent = Some y \<and> P r data len sent y"
  proof (rule write_loop.raw_induct
      [where P = "\<lambda>r data len sent y. write_loop r data len sent = Some y \<and> P r data len sent y",
        OF _ run], goal_cases)
    case (1 loop r data len sent y)
    show ?case
    proof (cases "sent < len")
      case False
      with 1(2) have "y = (r, Inr ())" by simp
      with False stop [OF False] show ?thesis by (simp add: write_loop.simps)
    next
      case True
      obtain r' res where sd: "send r (drop sent data) = (r', res)"
        by (cases "send r (drop sent data)")
      show ?thesis
      proof (cases res)
        case (Inl e)
        with 1(2) True sd have "y = (r', Inl e)" by simp
        with True sd Inl raise [of sent len r data r' e] show ?thesis
          by (simp add: write_loop.simps [of r])
      next
        case (Inr k)
        with 1(2) True sd have "loop r' data len (sent + k) = Some y" by simp
        from 1(1) [OF this]
        have *: "write_loop r' data len (sent + k) = Some y"
          and **: "P r' data len (sent + k) y" by simp_all
        from True sd Inr * have "write_loop r data len sent = Some y"
          by (simp add: write_loop.simps [of r])
        with step [OF True _ * **] sd Inr show ?thesis by simp
      qed
    qed
  qed
  then show ?thesis ..
qed

text \<open>Neither loop touches the descriptor, the phase or the plan of its socket.\<close>

lemma read_loop_frame:
  assumes "read_loop r L n frs = Some y"
  shows "fd (fst y) = fd r \<and> phase (fst y) = phase r \<and> plan (fst y) = plan r \<and>
         outbox (fst y) = outbox r \<and> clock r \<le> clock (fst y)"
  using assms
proof (induction rule: read_loop_induct)
  case (stop r L n frs)
  show ?case by simp
next
  case (raise r L n frs r' e)
  from recv_frame [OF raise(2)] show ?case by simp
next
  case (step r L n frs r' b y)
  from recv_frame [OF step(2)] step(4) show ?case by simp
qed

lemma write_loop_frame:
  assumes "write_loop r data len sent = Some y"
  shows "fd (fst y) = fd r \<and> phase (fst y) = phase r \<and> plan (fst y) = plan r \<and>
         inbox (fst y) = inbox r \<and> clock r \<le> clock (fst y)"
  using assms
proof (induction rule: write_loop_induct)
  case (stop r data len sent)
  show ?case by simp
next
  case (raise r data len sent r' e)
  from send_frame [OF raise(2)] show ?case by simp
next
  case (step r data len sent r' k y)
  from send_frame [OF step(2)] step(4) show ?case by simp
qed

text \<open>A \<open>read_loop\<close> that returns fragments has seen no call raise.\<close>

lemma read_loop_clean:
  assumes "read_loop r L n frs = Some y"
  shows "snd y = Inr frs' \<longrightarrow> (\<forall>j. clock r \<le> j \<and> j < clock (fst y) \<longrightarrow> plan r j \<noteq> Raises)"
  using assms
proof (induction arbitrary: frs' rule: read_loop_induct)
  case (stop r L n frs)
  then show ?case by auto
next
  case (raise r L n frs r' e)
  show ?case by simp
next
  case (step r L n frs r' b y)
  show ?case
  proof (intro impI allI)
    fix j
    assume out: "snd y = Inr frs'" and j: "clock r \<le> j \<and> j < clock (fst y)"
    show "plan r j \<noteq> Raises"
    proof (cases "j = clock r")
      case True
      with recv_Inr(1) [OF step(2)] show ?thesis by simp
    next
      case False
      with j recv_frame [OF step(2)] have "clock r' \<le> j \<and> j < clock (fst y)" by simp
      with step(4) [of frs'] out recv_frame(3) [OF step(2)] show ?thesis by simp
    qed
  qed
qed

text \<open>
  The fragments that \<open>read_loop\<close> returns are the next bytes of the stream, exactly as
  many as were missing.
\<close>

lemma read_loop_payload:
  assumes "read_loop r L n frs = Some y"
  shows "n \<le> L \<longrightarrow> snd y = Inr frs' \<longrightarrow>
         (\<exists>new. frs' = frs @ new \<and> inbox r = concat new @ inbox (fst y) \<and>
                n + length (concat new) = L)"
  using assms
proof (induction arbitrary: frs' rule: read_loop_induct)
  case (stop r L n frs)
  then show ?case by auto
next
  case (raise r L n frs r' e)
  show ?case by simp
next
  case (step r L n frs r' b y)
  show ?case
  proof (intro impI)
    assume le: "n \<le> L" and out: "snd y = Inr frs'"
    from recv_Inr(2) [OF step(2)] step(1) have "n + length b \<le> L" by simp
    with step(4) [of frs'] out obtain new where
      new: "frs' = (frs @ [b]) @ new" "inbox r' = concat new @ inbox (fst y)"
        "n + length b + length (concat new) = L" by blast
    from new recv_Inr(3) [OF step(2)]
    have "frs' = frs @ (b # new) \<and> inbox r = concat (b # new) @ inbox (fst y) \<and>
          n + length (concat (b # new)) = L" by simp
    then show "\<exists>new. frs' = frs @ new \<and> inbox r = concat new @ inbox (fst y) \<and>
                n + length (concat new) = L" by blast
  qed
qed

text \<open>
  When the stream ends before the announced length and no call raises, every further
  \<open>recv\<close> returns the empty byte string and the loop never ends.
\<close>

lemma read_loop_starves_aux:
  assumes "read_loop r L n frs = Some y"
  shows "\<not> (n + length (inbox r) < L \<and> (\<forall>j\<ge>clock r. plan r j \<noteq> Raises))"
  using assms
proof (induction rule: read_loop_induct)
  case (stop r L n frs)
  then show ?case by simp
next
  case (raise r L n frs r' e)
  from recv_Inl [OF raise(2)] show ?case by auto
next
  case (step r L n frs r' b y)
  show ?case
  proof
    assume inv: "n + length (inbox r) < L \<and> (\<forall>j\<ge>clock r. plan r j \<noteq> Raises)"
    from inv recv_Inr(3) [OF step(2)] have "n + length b + length (inbox r') < L" by simp
    moreover from inv recv_frame [OF step(2)] have "\<forall>j\<ge>clock r'. plan r' j \<noteq> Raises" by simp
    ultimately show False using step(4) by simp
  qed
qed

lemma read_loop_starves:
  "n + length (inbox r) < L \<Longrightarrow> \<forall>j\<ge>clock r. plan r j \<noteq> Raises \<Longrightarrow>
     read_loop r L n frs = None"
  using read_loop_starves_aux [of r L n frs] by (cases "read_loop r L n frs") auto

lemma unpack_u32_Some: "unpack_u32 b = Some L \<Longrightarrow> length b = 4"
  by (auto simp: unpack_u32_def split: list.splits)

lemma unpack_u32_None: "unpack_u32 b = None \<longleftrightarrow> length b \<noteq> 4"
  by (auto simp: unpack_u32_def split: list.splits)

text \<open>A call that raises ends the loop, so a raise ahead makes the loop return.\<close>

lemma read_loop_returns:
  "plan r j = Raises \<Longrightarrow> clock r \<le> j \<Longrightarrow> read_loop r L n frs \<noteq> None"
proof (induction "j - clock r" arbitrary: r n frs)
  case 0
  then have "plan r (clock r) = Raises" by simp
  then show ?case by (simp add: read_loop.simps [of r] recv_def)
next
  case (Suc k)
  show ?case
  proof (cases "n < L")
    case False
    then show ?thesis by (simp add: read_loop.simps [of r])
  next
    case True
    obtain r' res where rc: "recv r (L - n) = (r', res)" by (cases "recv r (L - n)")
    show ?thesis
    proof (cases res)
      case (Inl e)
      with True rc show ?thesis by (simp add: read_loop.simps [of r])
    next
      case (Inr b)
      from Suc(2) recv_frame [OF rc] Suc(3,4)
      have "k = j - clock r'" "plan r' j = Raises" "clock r' \<le> j" by simp_all
      from Suc(1) [OF this] True rc Inr show ?thesis
        by (simp add: read_loop.simps [of r])
    qed
  qed
qed

section \<open>\<open>Socket.read\<close> and \<open>Socket.write\<close> as a whole\<close>

lemma read_frame:
  assumes "read s t = Some (s', ok, d)"
  shows "timeout s' = timeout s \<and> debug s' = debug s \<and> same_handle (sock s) (sock s')"
proof (cases "sock s")
  case None
  with assms show ?thesis by (simp add: read_def same_handle_def)
next
  case (Some r)
  let ?tmo = "if t \<noteq> 0 then t else timeout s"
  obtain r1 res1 where sel: "select_readable r ?tmo = (r1, res1)"
    by (cases "select_readable r ?tmo")
  obtain r2 res2 where rc: "recv r1 4 = (r2, res2)" by (cases "recv r1 4")
  note f1 = select_frame(1,2) [OF sel] and f2 = recv_frame(1,2) [OF rc]
  from assms Some sel rc consider
      "s' = s\<lparr>sock := Some r1\<rparr>" | "s' = s\<lparr>sock := Some r2\<rparr>"
    | L r3 res3 where "read_loop r2 L 0 [] = Some (r3, res3)" "s' = s\<lparr>sock := Some r3\<rparr>"
    by (auto simp: read_def Let_def split: sum.splits bool.splits option.splits if_splits)
  then show ?thesis
  proof cases
    case 1
    with Some f1 show ?thesis by (simp add: same_handle_def)
  next
    case 2
    with Some f1 f2 show ?thesis by (simp add: same_handle_def)
  next
    case 3
    from read_loop_frame [OF 3(1)] 3(2) Some f1 f2 show ?thesis by (simp add: same_handle_def)
  qed
qed

lemma write_frame:
  assumes "write_data s x = Some (s', out)"
  shows "timeout s' = timeout s \<and> debug s' = debug s \<and> same_handle (sock s) (sock s')"
proof (cases "sock s")
  case None
  with assms show ?thesis by (simp add: write_data_def same_handle_def)
next
  case (Some r)
  from assms Some consider "s' = s"
    | b prefix r' res where "write_loop r (prefix @ b) (length b) 0 = Some (r', res)"
        "s' = s\<lparr>sock := Some r'\<rparr>"
    by (auto simp: write_data_def Let_def split: sum.splits option.splits)
  then show ?thesis
  proof cases
    case 1
    then show ?thesis by (simp add: same_handle_def)
  next
    case 2
    from write_loop_frame [OF 2(1)] 2(2) Some show ?thesis by (simp add: same_handle_def)
  qed
qed

lemma read_returns:
  assumes "sock s = Some r" and "plan r j = Raises" and "clock r \<le> j"
  shows "read s t \<noteq> None"
proof -
  let ?tmo = "if t \<noteq> 0 then t else timeout s"
  obtain r1 res1 where sel: "select_readable r ?tmo = (r1, res1)"
    by (cases "select_readable r ?tmo")
  obtain r2 res2 where rc: "recv r1 4 = (r2, res2)" by (cases "recv r1 4")
  show ?thesis
  proof (cases "res1 = Inr True \<and> (\<exists>header L. res2 = Inr header \<and> unpack_u32 header = Some L)")
    case False
    with assms(1) sel rc show ?thesis
      by (auto simp: read_def Let_def split: sum.splits bool.splits option.splits)
  next
    case True
    then obtain header L where h: "res1 = Inr True" "res2 = Inr header" "unpack_u32 header = Some L"
      by blast
    from select_clock(4) [OF sel h(1)] select_frame(3) [OF sel] recv_frame(3,5) [OF rc] recv_Inr(1) [OF rc [unfolded h(2)]]
    have "plan r2 = plan r" "clock r2 = Suc (Suc (clock r))" "plan r (clock r) \<noteq> Raises"
      "plan r (Suc (clock r)) \<noteq> Raises" by simp_all
    with assms(2,3) have "j \<noteq> clock r" "j \<noteq> Suc (clock r)" by auto
    with assms(2,3) \<open>plan r2 = plan r\<close> \<open>clock r2 = Suc (Suc (clock r))\<close>
    have "plan r2 j = Raises" "clock r2 \<le> j" by simp_all
    from read_loop_returns [OF this, of L 0 "[]"] assms(1) sel rc h show ?thesis
      by (auto simp: read_def Let_def split: sum.splits)
  qed
qed

lemma read_raise_is_error:
  assumes run: "read s t = Some (s', ok, d)" and before: "sock s = Some a" and after: "sock s' = Some a'"
    and j: "clock a \<le> j" "j < clock a'" "plan a j = Raises"
  shows "\<not> ok \<and> d = SOCK_ERROR"
proof -
  let ?tmo = "if t \<noteq> 0 then t else timeout s"
  obtain r1 res1 where sel: "select_readable a ?tmo = (r1, res1)"
    by (cases "select_readable a ?tmo")
  obtain r2 res2 where rc: "recv r1 4 = (r2, res2)" by (cases "recv r1 4")
  note sf = select_frame(3) [OF sel] and sc = select_clock [OF sel]
    and rf = recv_frame(3,5) [OF rc]
  show ?thesis
  proof (cases res1)
    case (Inl e)
    with run before sel show ?thesis by (simp add: read_def)
  next
    case (Inr ready)
    note r1 = this
    show ?thesis
    proof (cases ready)
      case False
      with run before sel r1 have "s' = s\<lparr>sock := Some r1\<rparr>" by (simp add: read_def)
      with after have "a' = r1" by simp
      with j sc(1) have "j = clock a" by simp
      with sc(3) r1 False j(3) show ?thesis by simp
    next
      case True
      note ready = this
      from sc(4) r1 ready have c1: "plan a (clock a) \<noteq> Raises" "clock r1 = Suc (clock a)" by simp_all
      show ?thesis
      proof (cases res2)
        case (Inl e)
        with run before sel rc r1 ready show ?thesis by (simp add: read_def)
      next
        case (Inr header)
        note hd = this
        from recv_Inr(1) [OF rc [unfolded hd]] sf c1
        have c2: "plan a (Suc (clock a)) \<noteq> Raises" by simp
        show ?thesis
        proof (cases "unpack_u32 header")
          case None
          with run before sel rc r1 ready hd show ?thesis by (simp add: read_def)
        next
          case (Some L)
          with run before sel rc r1 ready hd obtain r3 res3 where
            lp: "read_loop r2 L 0 [] = Some (r3, res3)" and s': "s' = s\<lparr>sock := Some r3\<rparr>"
            and out: "(\<exists>e. res3 = Inl e \<and> \<not> ok \<and> d = SOCK_ERROR) \<or> (\<exists>frs. res3 = Inr frs \<and> ok)"
            by (auto simp: read_def split: option.splits sum.splits)
          from out show ?thesis
          proof
            assume "\<exists>e. res3 = Inl e \<and> \<not> ok \<and> d = SOCK_ERROR"
            then show ?thesis by blast
          next
            assume "\<exists>frs. res3 = Inr frs \<and> ok"
            then obtain frs where frs: "res3 = Inr frs" by blast
            from s' after have "a' = r3" by simp
            from read_loop_clean [OF lp, of frs] frs
            have clean: "\<forall>i. clock r2 \<le> i \<and> i < clock r3 \<longrightarrow> plan r2 i \<noteq> Raises" by simp
            from j c1 c2 have "j \<noteq> clock a" "j \<noteq> Suc (clock a)" by auto
            with j have "Suc (Suc (clock a)) \<le> j" by simp
            with clean rf sf c1 \<open>a' = r3\<close> j show ?thesis by simp
          qed
        qed
      qed
    qed
  qed
qed

lemma read_False_sentinel:
  assumes "read s t = Some (s', False, d)"
  shows "d = SOCK_TIMEOUT \<or> d = SOCK_ERROR"
  using assms
  by (auto simp: read_def Let_def SOCK_TIMEOUT_def
      split: sum.splits bool.splits option.splits prod.splits if_splits)

text \<open>
  A read that reports success has received a whole frame: a header of four bytes and the
  payload of the length that the header gives.
\<close>

lemma read_success_complete:
  assumes "read s t = Some (s', True, p)" and "sock s = Some r"
  shows "\<exists>header r'. sock s' = Some r' \<and> unpack_u32 header = Some (length p) \<and>
           inbox r = header @ p @ inbox r'"
proof -
  let ?tmo = "if t \<noteq> 0 then t else timeout s"
  obtain r1 res1 where sel: "select_readable r ?tmo = (r1, res1)"
    by (cases "select_readable r ?tmo")
  obtain r2 res2 where rc: "recv r1 4 = (r2, res2)" by (cases "recv r1 4")
  from assms sel rc obtain header L r3 frs where
    h: "res1 = Inr True" "res2 = Inr header" "unpack_u32 header = Some L"
      "read_loop r2 L 0 [] = Some (r3, Inr frs)" "s' = s\<lparr>sock := Some r3\<rparr>" "p = concat frs"
    by (auto simp: read_def Let_def split: sum.splits bool.splits option.splits prod.splits if_splits)
  from read_loop_payload [OF h(4), of frs] have "inbox r2 = concat frs @ inbox r3" "length (concat frs) = L"
    by auto
  with h rc recv_Inr(3) [of r1 4 r2 header] select_frame(4) [OF sel] show ?thesis by auto
qed

section \<open>The claims\<close>

text \<open>
  C1, round trip: writing a payload and reading it at the peer should yield \<open>(True, p)\<close>,
  the empty payload included. The code does not do that: \<open>write\<close> compares \<open>sent\<close> with
  the length of the payload, not of the buffer with its prefix, so for the empty payload
  the loop body never runs. \<open>write\<close> returns \<open>True\<close>, no byte is on the wire, and the
  peer's \<open>read\<close>, finding the stream at its end, reports \<open>(False, SOCK_ERROR)\<close>.
\<close>

theorem roundtrip_empty_payload:
  "write_data (conn (wire [] steady)) (Bytes []) = Some (conn (wire [] steady), Inr True) \<and>
   read (arrives (conn (wire [] steady)) (conn (wire [] steady))) 0 =
     Some (conn ((wire [] steady)\<lparr>clock := 2\<rparr>), False, SOCK_ERROR)"
  by (simp add: write_data_def conn_def wire_def Socket_init_def to_bytes_def pack_u32_def
      write_loop.simps send_def tick_def Let_def read_def select_readable_def recv_def
      unpack_u32_def arrives_def steady_def)

text \<open>
  C2, \<open>write\<close> sends the whole framed buffer before it returns \<open>True\<close>. The code does
  not: when the first \<open>send\<close> takes three of the seven bytes of the frame of a three-byte
  payload, \<open>sent\<close> has reached the payload length, the loop ends and \<open>write\<close> returns
  \<open>True\<close> with three bytes of the prefix sent and nothing else.
\<close>

theorem write_short_send:
  "write_data (conn (wire [] (\<lambda>i. Moves 3))) (Bytes [7, 8, 9]) =
     Some (conn ((wire [] (\<lambda>i. Moves 3))\<lparr>outbox := [0, 0, 0], clock := 1\<rparr>), Inr True)"
  by (simp add: write_data_def conn_def wire_def Socket_init_def to_bytes_def pack_u32_def
      write_loop.simps send_def tick_def Let_def)

text \<open>
  C3, a \<open>connect\<close> that fails leaves the object disconnected and a later \<open>connect\<close> can
  succeed. The code does not: it stores the new socket in the handle before it connects,
  so after a refused connection the handle is present, and the next \<open>connect\<close> returns
  \<open>False\<close> at its first test even when the host now accepts.
\<close>

theorem connect_failure_keeps_handle:
  "connect (network False) (Socket_init None 60 False) ''127.0.0.1'' 5551 =
     (Socket_init (Some (unconnected\<lparr>sock_timeout := Some 60\<rparr>)) 60 False, False) \<and>
   connect (network True)
     (Socket_init (Some (unconnected\<lparr>sock_timeout := Some 60\<rparr>)) 60 False) ''127.0.0.1'' 5551 =
     (Socket_init (Some (unconnected\<lparr>sock_timeout := Some 60\<rparr>)) 60 False, False)"
  by (simp add: connect_def network_def Socket_init_def settimeout_def connect_raw_def)

text \<open>
  C4 as stated fails: without a connection \<open>read\<close> returns the timeout sentinel
  \<open>0x00\<close>, not the error sentinel.
\<close>

theorem read_sentinel_counterexample:
  "read (Socket_init None 60 False) 0 = Some (Socket_init None 60 False, False, [0]) \<and>
   read (Socket_init None 60 False) 0 \<noteq> Some (Socket_init None 60 False, False, SOCK_ERROR)"
  by (simp add: read_def Socket_init_def SOCK_TIMEOUT_def SOCK_ERROR_def)

text \<open>
  C4, amended: \<open>read\<close> returns \<open>(False, SOCK_TIMEOUT)\<close> when there is no connection, as
  it does when the wait for the socket runs out, and \<open>(False, SOCK_ERROR)\<close> when the length
  prefix cannot be decoded or when a call it made on the socket raised, and a raise ahead
  makes it return. The two sentinels are the distinct one-byte strings \<open>0x00\<close> and \<open>0x01\<close>.
  A sentinel that reports a failure never comes with a true flag: with a false flag the
  data is one of the two sentinels, and with a true flag the data is the payload of a frame
  that was received whole, a header of four bytes that gives its length and then the bytes.
\<close>

theorem read_failure_sentinels:
  "(sock sn = None \<longrightarrow> read sn tn = Some (sn, False, SOCK_TIMEOUT)) \<and>
   (sock sw = Some rw \<and>
    select_readable rw (if tw \<noteq> 0 then tw else timeout sw) = (rw', Inr False) \<longrightarrow>
      read sw tw = Some (sw\<lparr>sock := Some rw'\<rparr>, False, SOCK_TIMEOUT)) \<and>
   (sock sd = Some rd \<and>
    select_readable rd (if td \<noteq> 0 then td else timeout sd) = (rd', Inr True) \<and>
    recv rd' 4 = (rd'', Inr header) \<and> unpack_u32 header = None \<longrightarrow>
      read sd td = Some (sd\<lparr>sock := Some rd''\<rparr>, False, SOCK_ERROR)) \<and>
   (read se te = Some (se', ok, d) \<and> sock se = Some a \<and> sock se' = Some a' \<and>
    clock a \<le> j \<and> j < clock a' \<and> plan a j = Raises \<longrightarrow> \<not> ok \<and> d = SOCK_ERROR) \<and>
   (sock sf = Some b \<and> clock b \<le> i \<and> plan b i = Raises \<longrightarrow> read sf tf \<noteq> None) \<and>
   (read sg tg = Some (sg', False, dg) \<longrightarrow> dg = SOCK_TIMEOUT \<or> dg = SOCK_ERROR) \<and>
   (read sh th = Some (sh', True, p) \<and> sock sh = Some c \<and> sock sh' = Some c' \<longrightarrow>
      unpack_u32 (take 4 (inbox c)) = Some (length p) \<and>
      inbox c = take 4 (inbox c) @ p @ inbox c') \<and>
   (read sk tk = Some (sk', True, q) \<longrightarrow> sock sk \<noteq> None) \<and>
   SOCK_TIMEOUT = [0] \<and> SOCK_ERROR = [1] \<and> SOCK_TIMEOUT \<noteq> SOCK_ERROR"
proof (intro conjI impI)
  show "read sn tn = Some (sn, False, SOCK_TIMEOUT)" if "sock sn = None"
    using that by (simp add: read_def)
  show "read sw tw = Some (sw\<lparr>sock := Some rw'\<rparr>, False, SOCK_TIMEOUT)"
    if "sock sw = Some rw \<and>
        select_readable rw (if tw \<noteq> 0 then tw else timeout sw) = (rw', Inr False)"
    using that by (simp add: read_def SOCK_TIMEOUT_def)
  show "read sd td = Some (sd\<lparr>sock := Some rd''\<rparr>, False, SOCK_ERROR)"
    if "sock sd = Some rd \<and>
        select_readable rd (if td \<noteq> 0 then td else timeout sd) = (rd', Inr True) \<and>
        recv rd' 4 = (rd'', Inr header) \<and> unpack_u32 header = None"
    using that by (simp add: read_def)
  show "\<not> ok" "d = SOCK_ERROR"
    if "read se te = Some (se', ok, d) \<and> sock se = Some a \<and> sock se' = Some a' \<and>
        clock a \<le> j \<and> j < clock a' \<and> plan a j = Raises"
    using that read_raise_is_error [of se te se' ok d a a' j] by simp_all
  show "read sf tf \<noteq> None" if "sock sf = Some b \<and> clock b \<le> i \<and> plan b i = Raises"
    using that read_returns [of sf b i tf] by simp
  show "dg = SOCK_TIMEOUT \<or> dg = SOCK_ERROR" if "read sg tg = Some (sg', False, dg)"
    using that by (rule read_False_sentinel)
  show "unpack_u32 (take 4 (inbox c)) = Some (length p)"
    "inbox c = take 4 (inbox c) @ p @ inbox c'"
    if "read sh th = Some (sh', True, p) \<and> sock sh = Some c \<and> sock sh' = Some c'"
  proof -
    from that read_success_complete [of sh th sh' p c] obtain hd where
      hd: "unpack_u32 hd = Some (length p)" "inbox c = hd @ p @ inbox c'" by auto
    from unpack_u32_Some [OF hd(1)] hd(2) have "take 4 (inbox c) = hd" by simp
    with hd show "unpack_u32 (take 4 (inbox c)) = Some (length p)"
      "inbox c = take 4 (inbox c) @ p @ inbox c'" by simp_all
  qed
  show "sock sk \<noteq> None" if "read sk tk = Some (sk', True, q)"
    using that by (cases "sock sk") (simp_all add: read_def)
qed (simp_all add: SOCK_TIMEOUT_def SOCK_ERROR_def)

text \<open>
  The cases at work: no connection, a wait that runs out, a header of three bytes, a
  \<open>recv\<close> that raises in the middle of the payload, and a frame that arrives whole.
\<close>

theorem read_failure_sentinels_witness:
  "read (Socket_init None 60 False) 0 = Some (Socket_init None 60 False, False, SOCK_TIMEOUT) \<and>
   read (conn (wire [0, 0, 0, 1, 7] idle)) 0 =
     Some (conn ((wire [0, 0, 0, 1, 7] idle)\<lparr>clock := 1\<rparr>), False, SOCK_TIMEOUT) \<and>
   read (conn (wire [0, 0, 9] steady)) 0 =
     Some (conn ((wire [] steady)\<lparr>clock := 2\<rparr>), False, SOCK_ERROR) \<and>
   read (conn (wire [0, 0, 0, 2, 7, 7] late_failure)) 5 =
     Some (conn ((wire [7, 7] late_failure)\<lparr>clock := 3\<rparr>), False, SOCK_ERROR) \<and>
   plan (wire [0, 0, 0, 2, 7, 7] late_failure) 2 = Raises \<and>
   read (conn (wire [0, 0, 0, 2, 7, 7] late_failure)) 5 \<noteq> None \<and>
   read (conn (wire [0, 0, 0, 2, 7, 8, 9] steady)) 0 =
     Some (conn ((wire [9] steady)\<lparr>clock := 3\<rparr>), True, [7, 8]) \<and>
   unpack_u32 (take 4 (inbox (wire [0, 0, 0, 2, 7, 8, 9] steady))) = Some (length [7, 8 :: byte]) \<and>
   inbox (wire [0, 0, 0, 2, 7, 8, 9] steady) =
     take 4 (inbox (wire [0, 0, 0, 2, 7, 8, 9] steady)) @ [7, 8] @
       inbox ((wire [9] steady)\<lparr>clock := 3\<rparr>) \<and>
   sock (conn (wire [0, 0, 0, 2, 7, 8, 9] steady)) \<noteq> None"
proof -
  let ?none = "Socket_init None 60 False"
  let ?wait = "conn (wire [0, 0, 0, 1, 7] idle)"
  let ?short = "conn (wire [0, 0, 9] steady)"
  let ?late = "conn (wire [0, 0, 0, 2, 7, 7] late_failure)"
  let ?late' = "conn ((wire [7, 7] late_failure)\<lparr>clock := 3\<rparr>)"
  let ?good = "conn (wire [0, 0, 0, 2, 7, 8, 9] steady)"
  let ?good' = "conn ((wire [9] steady)\<lparr>clock := 3\<rparr>)"
  have h1: "sock ?none = None" by (simp add: Socket_init_def)
  have h2: "sock ?wait = Some (wire [0, 0, 0, 1, 7] idle) \<and>
      select_readable (wire [0, 0, 0, 1, 7] idle) (if (0::int) \<noteq> 0 then 0 else timeout ?wait) =
        ((wire [0, 0, 0, 1, 7] idle)\<lparr>clock := 1\<rparr>, Inr False)"
    by (simp add: conn_def Socket_init_def wire_def select_readable_def tick_def idle_def)
  have h3: "sock ?short = Some (wire [0, 0, 9] steady) \<and>
      select_readable (wire [0, 0, 9] steady) (if (0::int) \<noteq> 0 then 0 else timeout ?short) =
        ((wire [0, 0, 9] steady)\<lparr>clock := 1\<rparr>, Inr True) \<and>
      recv ((wire [0, 0, 9] steady)\<lparr>clock := 1\<rparr>) 4 = ((wire [] steady)\<lparr>clock := 2\<rparr>, Inr [0, 0, 9]) \<and>
      unpack_u32 [0, 0, 9] = None"
    by (simp add: conn_def Socket_init_def wire_def select_readable_def recv_def tick_def
        steady_def unpack_u32_def)
  have run: "read ?late 5 = Some (?late', False, SOCK_ERROR)"
    by (simp add: read_def conn_def Socket_init_def wire_def select_readable_def recv_def tick_def
        late_failure_def unpack_u32_def read_loop.simps)
  have h4: "read ?late 5 = Some (?late', False, SOCK_ERROR) \<and>
      sock ?late = Some (wire [0, 0, 0, 2, 7, 7] late_failure) \<and>
      sock ?late' = Some ((wire [7, 7] late_failure)\<lparr>clock := 3\<rparr>) \<and>
      clock (wire [0, 0, 0, 2, 7, 7] late_failure) \<le> 2 \<and>
      2 < clock ((wire [7, 7] late_failure)\<lparr>clock := 3\<rparr>) \<and>
      plan (wire [0, 0, 0, 2, 7, 7] late_failure) 2 = Raises"
    using run by (simp add: conn_def Socket_init_def wire_def late_failure_def)
  have h5: "sock ?late = Some (wire [0, 0, 0, 2, 7, 7] late_failure) \<and>
      clock (wire [0, 0, 0, 2, 7, 7] late_failure) \<le> 2 \<and>
      plan (wire [0, 0, 0, 2, 7, 7] late_failure) 2 = Raises"
    using h4 by simp
  have good: "read ?good 0 = Some (?good', True, [7, 8])"
    by (simp add: read_def conn_def Socket_init_def wire_def select_readable_def recv_def tick_def
        steady_def unpack_u32_def read_loop.simps)
  have h7: "read ?good 0 = Some (?good', True, [7, 8]) \<and>
      sock ?good = Some (wire [0, 0, 0, 2, 7, 8, 9] steady) \<and>
      sock ?good' = Some ((wire [9] steady)\<lparr>clock := 3\<rparr>)"
    using good by (simp add: conn_def Socket_init_def)
  note inst = read_failure_sentinels [where sn = ?none and tn = 0
      and sw = ?wait and tw = 0 and rw = "wire [0, 0, 0, 1, 7] idle"
      and rw' = "(wire [0, 0, 0, 1, 7] idle)\<lparr>clock := 1\<rparr>"
      and sd = ?short and td = 0 and rd = "wire [0, 0, 9] steady"
      and rd' = "(wire [0, 0, 9] steady)\<lparr>clock := 1\<rparr>"
      and rd'' = "(wire [] steady)\<lparr>clock := 2\<rparr>" and header = "[0, 0, 9]"
      and se = ?late and te = 5 and se' = ?late' and ok = False and d = SOCK_ERROR
      and a = "wire [0, 0, 0, 2, 7, 7] late_failure"
      and a' = "(wire [7, 7] late_failure)\<lparr>clock := 3\<rparr>" and j = 2
      and sf = ?late and tf = 5 and b = "wire [0, 0, 0, 2, 7, 7] late_failure" and i = 2
      and sg = ?late and tg = 5 and sg' = ?late' and dg = SOCK_ERROR
      and sh = ?good and th = 0 and sh' = ?good' and p = "[7, 8]"
      and c = "wire [0, 0, 0, 2, 7, 8, 9] steady" and c' = "(wire [9] steady)\<lparr>clock := 3\<rparr>"
      and sk = ?good and tk = 0 and sk' = ?good' and q = "[7, 8]"]
  from inst h1 have c1: "read ?none 0 = Some (?none, False, SOCK_TIMEOUT)" by blast
  from inst h2 have "read ?wait 0 =
      Some (?wait\<lparr>sock := Some ((wire [0, 0, 0, 1, 7] idle)\<lparr>clock := 1\<rparr>)\<rparr>, False, SOCK_TIMEOUT)" by blast
  then have c2: "read ?wait 0 =
      Some (conn ((wire [0, 0, 0, 1, 7] idle)\<lparr>clock := 1\<rparr>), False, SOCK_TIMEOUT)"
    by (simp add: conn_def Socket_init_def)
  from inst h3 have "read ?short 0 =
      Some (?short\<lparr>sock := Some ((wire [] steady)\<lparr>clock := 2\<rparr>)\<rparr>, False, SOCK_ERROR)" by blast
  then have c3: "read ?short 0 = Some (conn ((wire [] steady)\<lparr>clock := 2\<rparr>), False, SOCK_ERROR)"
    by (simp add: conn_def Socket_init_def)
  from h5 have c4: "plan (wire [0, 0, 0, 2, 7, 7] late_failure) 2 = Raises" by simp
  from inst h5 have c5: "read ?late 5 \<noteq> None" by blast
  from inst h7 have c7:
    "unpack_u32 (take 4 (inbox (wire [0, 0, 0, 2, 7, 8, 9] steady))) = Some (length [7, 8 :: byte]) \<and>
     inbox (wire [0, 0, 0, 2, 7, 8, 9] steady) =
       take 4 (inbox (wire [0, 0, 0, 2, 7, 8, 9] steady)) @ [7, 8] @
         inbox ((wire [9] steady)\<lparr>clock := 3\<rparr>)" by blast
  from inst good have c8: "sock ?good \<noteq> None" by blast
  from c1 c2 c3 run c4 c5 good c7 c8 show ?thesis by blast
qed

text \<open>
  C5, every \<open>read\<close> returns the complete message or a failure tuple. The code does not
  return at all when the peer closes in the middle of a payload: the header announces five
  bytes, two arrive, and from then on \<open>recv\<close> returns the empty byte string, which the loop
  appends without getting any nearer to its end.
\<close>

theorem read_peer_closes_mid_payload:
  "read (conn (wire [0, 0, 0, 5, 1, 2] steady)) 0 = None"
proof -
  let ?r2 = "\<lparr>fd = 3, phase = Established, sock_timeout = Some 60, inbox = [1, 2],
     outbox = [], plan = steady, clock = Suc (Suc 0)\<rparr>"
  have "read_loop ?r2 5 0 [] = None"
    by (rule read_loop_starves) (simp_all add: steady_def)
  then show ?thesis
    by (simp add: read_def conn_def wire_def Socket_init_def select_readable_def recv_def
        tick_def unpack_u32_def steady_def)
qed

text \<open>
  C6: \<open>start\<close> on a server that has a listener raises and changes nothing: the listener
  and the running flag are as before and no accept loop is launched.
\<close>

theorem start_while_listening:
  "listener srv \<noteq> None \<Longrightarrow>
     start pf srv callback port address blocking =
       (srv, Inl (Misuse ''server is already listening''))"
  by (simp add: start_def)

text \<open>
  A server that was started, started again.
\<close>

theorem start_while_listening_witness:
  "listener (fst (start (network True) (ServerBase_init False) (0::nat) 5551 ''127.0.0.1'' False)) \<noteq> None \<and>
   start (network True)
     (fst (start (network True) (ServerBase_init False) (0::nat) 5551 ''127.0.0.1'' False))
     (1::nat) 5552 ''0.0.0.0'' True =
     (fst (start (network True) (ServerBase_init False) (0::nat) 5551 ''127.0.0.1'' False),
      Inl (Misuse ''server is already listening''))"
proof -
  let ?srv = "fst (start (network True) (ServerBase_init False) (0::nat) 5551 ''127.0.0.1'' False)"
  have h: "listener ?srv \<noteq> None"
    by (simp add: start_def network_def ServerBase_init_def)
  from h start_while_listening [OF h, of "network True" "1::nat" 5552 "''0.0.0.0''" True]
  show ?thesis by simp
qed

text \<open>
  C7: \<open>disconnect\<close> raises nothing and clears the handle, whatever \<open>shutdown\<close> and
  \<open>close\<close> did; called again it finds no handle, calls no primitive and lets go of nothing.
\<close>

theorem disconnect_idempotent:
  "sock (fst (disconnect s)) = None \<and>
   disconnect (fst (disconnect s)) = (fst (disconnect s), None)"
  by (simp add: disconnect_def Let_def split: option.splits)

text \<open>
  C8: a \<open>read\<close> that reports failure and a \<open>write\<close> that does not return \<open>True\<close>
  leave the handle as it was: present if it was present, the same descriptor, not closed.
\<close>

theorem failing_io_keeps_handle:
  "(read s t = Some (s', False, d) \<longrightarrow>
      same_handle (sock s) (sock s') \<and> (sock s' = None \<longleftrightarrow> sock s = None)) \<and>
   (write_data w x = Some (w', out) \<and> out \<noteq> Inr True \<longrightarrow>
      same_handle (sock w) (sock w') \<and> (sock w' = None \<longleftrightarrow> sock w = None))"
proof -
  have "same_handle h h' \<Longrightarrow> (h' = None \<longleftrightarrow> h = None)" for h h'
    by (cases h; cases h') (simp_all add: same_handle_def)
  with read_frame [of s t s' False d] write_frame [of w x w' out] show ?thesis by blast
qed

text \<open>
  A \<open>read\<close> and a \<open>write\<close> on a connection whose every call raises.
\<close>

theorem failing_io_keeps_handle_witness:
  "read (conn (wire [] broken)) 0 = Some (conn (tick (wire [] broken)), False, SOCK_ERROR) \<and>
   same_handle (sock (conn (wire [] broken))) (sock (conn (tick (wire [] broken)))) \<and>
   (sock (conn (tick (wire [] broken))) = None \<longleftrightarrow> sock (conn (wire [] broken)) = None) \<and>
   write_data (conn (wire [] broken)) (Bytes [7]) =
     Some (conn (tick (wire [] broken)), Inr False) \<and> Inr False \<noteq> (Inr True :: error + bool)"
proof -
  have rd: "read (conn (wire [] broken)) 0 = Some (conn (tick (wire [] broken)), False, SOCK_ERROR)"
    by (simp add: read_def conn_def wire_def Socket_init_def select_readable_def broken_def tick_def)
  have wr: "write_data (conn (wire [] broken)) (Bytes [7]) =
     Some (conn (tick (wire [] broken)), Inr False)"
    by (simp add: write_data_def conn_def wire_def Socket_init_def to_bytes_def pack_u32_def
        write_loop.simps send_def broken_def tick_def)
  from rd wr
    failing_io_keeps_handle [of "conn (wire [] broken)" 0 "conn (tick (wire [] broken))" SOCK_ERROR
      "conn (wire [] broken)" "Bytes [7]" "conn (tick (wire [] broken))" "Inr False"]
  show ?thesis by simp
qed

text \<open>
  C9: on a connected socket, a payload of more than \<open>2^32 - 1\<close> bytes makes \<open>write\<close>
  return \<open>False\<close> with the object and its socket untouched: no primitive was called and
  nothing was sent.
\<close>

theorem write_oversized:
  "sock s = Some r \<Longrightarrow> to_bytes data = Inr b \<Longrightarrow> 4294967295 < length b \<Longrightarrow>
     write_data s data = Some (s, Inr False)"
  by (simp add: write_data_def pack_u32_def Let_def)

text \<open>
  A payload of \<open>2^32\<close> zero bytes.
\<close>

theorem write_oversized_witness:
  "sock (conn (wire [] steady)) = Some (wire [] steady) \<and>
   to_bytes (Bytes (replicate 4294967296 0)) = Inr (replicate 4294967296 0) \<and>
   4294967295 < length (replicate 4294967296 (0::byte)) \<and>
   write_data (conn (wire [] steady)) (Bytes (replicate 4294967296 0)) =
     Some (conn (wire [] steady), Inr False)"
proof -
  have h1: "sock (conn (wire [] steady)) = Some (wire [] steady)"
    by (simp add: conn_def Socket_init_def)
  have h2: "to_bytes (Bytes (replicate 4294967296 0)) = Inr (replicate 4294967296 0)"
    by (simp add: to_bytes_def)
  have h3: "4294967295 < length (replicate 4294967296 (0::byte))"
    by simp
  from h1 h2 h3 write_oversized [OF h1 h2 h3] show ?thesis by simp
qed

text \<open>
  C10: \<open>s + x\<close> is \<open>s.write(x)\<close>, in its result and in what it does to the object and
  the socket.
\<close>

theorem add_is_write: "add s x = write_data s x"
  by (simp add: add_def)

end
